theory Spec2Isabelle
  imports Complex_Main "HOL-Library.Sublist" "HOL-Library.AList" "HOL-Library.Multiset"
begin

section \<open>The code search core of dspy_code/rag/search.py\<close>

text \<open>
  A shallow embedding of the class \<open>CodeSearch\<close>. Python strings are modelled as
  \<open>string\<close> over ASCII, Python floats as \<open>real\<close> (every weight and boost of the
  source is a decimal constant; rounding is not modelled), Python ints as \<open>int\<close>.
\<close>

subsection \<open>Strings\<close>

text \<open>\<open>str.lower()\<close> on ASCII text: the letters A to Z are mapped, nothing else.\<close>

definition lower_char :: "char \<Rightarrow> char" where
  "lower_char c =
     (case map_of (zip ''ABCDEFGHIJKLMNOPQRSTUVWXYZ'' ''abcdefghijklmnopqrstuvwxyz'') c of
        None \<Rightarrow> c
      | Some d \<Rightarrow> d)"

definition lower :: "string \<Rightarrow> string" where
  "lower s = map lower_char s"

text \<open>The character class \<open>\w\<close> on ASCII text: letters, digits and the underscore.\<close>

definition is_word_char :: "char \<Rightarrow> bool" where
  "is_word_char c \<longleftrightarrow>
     c \<in> set ''abcdefghijklmnopqrstuvwxyzABCDEFGHIJKLMNOPQRSTUVWXYZ0123456789_''"

text \<open>
  \<open>re.findall(r"\w+", s)\<close>: the maximal runs of word characters, left to right. The
  first argument is the run read so far.
\<close>

fun findall_words :: "string \<Rightarrow> string \<Rightarrow> string list" where
  "findall_words cur [] = (if cur = [] then [] else [cur])"
| "findall_words cur (c # cs) =
     (if is_word_char c then findall_words (cur @ [c]) cs
      else if cur = [] then findall_words [] cs
      else cur # findall_words [] cs)"

text \<open>The operator \<open>k in t\<close> on strings: \<open>k\<close> occurs in \<open>t\<close> as a contiguous piece.\<close>

fun str_in :: "string \<Rightarrow> string \<Rightarrow> bool" where
  "str_in k [] = (k = [])"
| "str_in k (c # cs) = (prefix k (c # cs) \<or> str_in k cs)"

text \<open>
  A slice \<open>xs[:k]\<close>: the first \<open>k\<close> items, and for a negative \<open>k\<close> all but the last
  \<open>-k\<close> items.
\<close>

definition py_take :: "int \<Rightarrow> 'a list \<Rightarrow> 'a list" where
  "py_take k xs =
     (if 0 \<le> k then take (nat k) xs else take (length xs - nat (- k)) xs)"

text \<open>
  \<open>list.sort(key=f, reverse=True)\<close>: descending by key, and stable (items with equal
  keys keep their order): a stable ascending sort on the negated key.
\<close>

definition sort_desc :: "('a \<Rightarrow> real) \<Rightarrow> 'a list \<Rightarrow> 'a list" where
  "sort_desc f xs = sort_key (\<lambda>x. - f x) xs"

subsection \<open>Data model\<close>

text \<open>
  Modelled from the spec: the module \<open>models\<close> with the classes \<open>CodeElement\<close>,
  \<open>CodeIndex\<close> and \<open>SearchResult\<close> is imported by search.py and is not among the
  sources. The fields are those search.py reads and writes; the docstring is optional,
  and \<open>matched_terms\<close> is a Python list.
\<close>

record code_element =
  name :: string
  elem_type :: string
  codebase :: string
  signature :: string
  docstring :: "string option"
  code :: string

record search_result =
  element :: code_element
  score :: real
  match_type :: string
  matched_terms :: "string list"

text \<open>The truth value of \<open>elem.docstring\<close>: neither \<open>None\<close> nor the empty string.\<close>

definition has_docstring :: "code_element \<Rightarrow> bool" where
  "has_docstring elem = (case docstring elem of None \<Rightarrow> False | Some d \<Rightarrow> d \<noteq> [])"

definition docstring_text :: "code_element \<Rightarrow> string" where
  "docstring_text elem = (case docstring elem of None \<Rightarrow> [] | Some d \<Rightarrow> d)"

text \<open>
  The state of a \<open>CodeSearch\<close> object. \<open>index\<close> is \<open>index.elements\<close>. The fitted
  scikit-learn vectorizer and matrix are outside the repository and enter as the function
  \<open>vectorizer\<close>: for a query it gives the list \<open>similarities\<close> that
  \<open>cosine_similarity(vectorizer.transform([query]), tfidf_matrix)[0]\<close> computes, or
  \<open>None\<close> when that raises. The field is \<open>None\<close> when no vectorizer was built.
  \<open>np_argsort\<close> stands for \<open>numpy.argsort\<close>, which the module imports: NumPy's
  default sort is not a stable one, so the function is left open and carried with the
  object.
\<close>

record code_search =
  index :: "code_element list"
  use_tfidf :: bool
  vectorizer :: "(string \<Rightarrow> real list option) option"
  element_texts :: "string list"
  query_cache :: "string \<rightharpoonup> search_result list"
  np_argsort :: "real list \<Rightarrow> nat list"

subsection \<open>Keyword extraction and the lexical score\<close>

definition stop_words :: "string list" where
  "stop_words =
     [''the'', ''a'', ''an'', ''and'', ''or'', ''but'', ''in'', ''on'', ''at'', ''to'',
      ''for'', ''of'', ''with'', ''by'', ''from'', ''as'', ''is'', ''was'', ''are'',
      ''were'', ''be'', ''how'', ''do'', ''does'', ''i'', ''you'', ''use'', ''using'',
      ''create'', ''make'']"

definition extract_keywords :: "string \<Rightarrow> string list" where
  "extract_keywords query =
     (let words = findall_words [] (lower query)
      in filter (\<lambda>w. w \<notin> set stop_words \<and> length w > 2) words)"

definition extract_matched_terms :: "string \<Rightarrow> string \<Rightarrow> string list" where
  "extract_matched_terms query text =
     (let keywords = extract_keywords query;
          text_lower = lower text
      in filter (\<lambda>kw. str_in kw text_lower) keywords)"

text \<open>One \<open>for keyword in keywords\<close> loop of the scorer, adding \<open>w\<close> for each hit.\<close>

fun score_loop :: "real \<Rightarrow> string \<Rightarrow> string list \<Rightarrow> real \<Rightarrow> real" where
  "score_loop w field [] sc = sc"
| "score_loop w field (keyword # keywords) sc =
     score_loop w field keywords (if str_in keyword field then sc + w else sc)"

definition score_element_keywords :: "code_element \<Rightarrow> string list \<Rightarrow> real" where
  "score_element_keywords elem keywords =
     (let score = 0;
          score = score_loop 3.0 (lower (name elem)) keywords score;
          score = (if has_docstring elem
                   then score_loop 2.0 (lower (docstring_text elem)) keywords score
                   else score);
          score = score_loop 1.5 (lower (signature elem)) keywords score;
          score = score_loop 0.5 (lower (code elem)) keywords score
      in score)"

subsection \<open>Keyword search\<close>

definition keyword_search :: "code_search \<Rightarrow> string \<Rightarrow> int \<Rightarrow> search_result list" where
  "keyword_search s query top_k =
     (let keywords = extract_keywords query
      in if keywords = [] then []
         else
           let scored_elements =
                 filter (\<lambda>(elem, score, kws). score > 0)
                   (map (\<lambda>elem. (elem, score_element_keywords elem keywords, keywords))
                      (index s));
               scored_elements = sort_desc (\<lambda>(elem, score, kws). score) scored_elements
           in map (\<lambda>(elem, score, matched).
                     \<lparr>element = elem, score = score, match_type = ''keyword'',
                      matched_terms = matched\<rparr>)
                (py_take top_k scored_elements))"

subsection \<open>Building the vector index\<close>

text \<open>\<open>s.split(sep)\<close> for a one-character separator; the first argument is the piece read so far.\<close>

fun split_on :: "char \<Rightarrow> string \<Rightarrow> string \<Rightarrow> string list" where
  "split_on sep cur [] = [cur]"
| "split_on sep cur (c # cs) =
     (if c = sep then cur # split_on sep [] cs else split_on sep (cur @ [c]) cs)"

text \<open>\<open>" ".join(parts)\<close>.\<close>

fun join_space :: "string list \<Rightarrow> string" where
  "join_space [] = []"
| "join_space [p] = p"
| "join_space (p # q # ps) = p @ '' '' @ join_space (q # ps)"

text \<open>The text of one element in \<open>_build_tfidf_index\<close>.\<close>

definition element_text :: "code_element \<Rightarrow> string" where
  "element_text elem =
     (let text_parts = [name elem];
          text_parts = (if has_docstring elem then text_parts @ [docstring_text elem]
                        else text_parts);
          text_parts = text_parts @ [signature elem];
          code_lines = take 5 (split_on CHR 0x0A [] (code elem));
          text_parts = text_parts @ code_lines
      in join_space text_parts)"

text \<open>
  \<open>__init__\<close>. \<open>sklearn_available\<close> is the module constant \<open>SKLEARN_AVAILABLE\<close>;
  \<open>fit\<close> stands for fitting the vectorizer on the texts, \<open>None\<close> when that raises
  (then \<open>use_tfidf\<close> is switched off); \<open>argsort\<close> is the NumPy function at hand.
\<close>

definition new_code_search ::
  "code_element list \<Rightarrow> bool \<Rightarrow> bool \<Rightarrow>
   (string list \<Rightarrow> (string \<Rightarrow> real list option) option) \<Rightarrow>
   (real list \<Rightarrow> nat list) \<Rightarrow> code_search" where
  "new_code_search elems use_tfidf_arg sklearn_available fit argsort =
     (let s = \<lparr>index = elems, use_tfidf = use_tfidf_arg \<and> sklearn_available,
               vectorizer = None, element_texts = [], query_cache = Map.empty,
               np_argsort = argsort\<rparr>
      in if use_tfidf s then
           (let texts = map element_text elems
            in case fit texts of
                 None \<Rightarrow> s\<lparr>element_texts := texts, use_tfidf := False\<rparr>
               | Some v \<Rightarrow> s\<lparr>element_texts := texts, vectorizer := Some v\<rparr>)
         else s)"

subsection \<open>Semantic search\<close>

text \<open>
  What \<open>np.argsort(xs)\<close> promises of its result: every index of \<open>xs\<close> once, the
  values in ascending order. The order of the indices of equal values is not part of it.
\<close>

definition is_argsort_of :: "real list \<Rightarrow> nat list \<Rightarrow> bool" where
  "is_argsort_of xs idxs \<longleftrightarrow>
     distinct idxs \<and> set idxs = {0..<length xs} \<and> sorted (map (\<lambda>i. xs ! i) idxs)"

text \<open>
  One function that keeps the promise: the insertion sort of the indices, which leaves the
  indices of equal values in ascending order. It is the NumPy function of the examples.
\<close>

definition insertion_argsort :: "real list \<Rightarrow> nat list" where
  "insertion_argsort xs = sort_key (\<lambda>i. xs ! i) [0..<length xs]"

text \<open>\<open>np.argsort(similarities)[::-1][:top_k]\<close>.\<close>

definition top_indices :: "(real list \<Rightarrow> nat list) \<Rightarrow> real list \<Rightarrow> int \<Rightarrow> nat list" where
  "top_indices argsort similarities top_k = py_take top_k (rev (argsort similarities))"

text \<open>
  The loop over \<open>top_indices\<close>. An index beyond \<open>similarities\<close>, \<open>index.elements\<close>
  or \<open>element_texts\<close> raises IndexError in the source: the result is \<open>None\<close>.
\<close>

fun semantic_results ::
  "code_search \<Rightarrow> string \<Rightarrow> real list \<Rightarrow> nat list \<Rightarrow> search_result list option" where
  "semantic_results s query similarities [] = Some []"
| "semantic_results s query similarities (idx # idxs) =
     (if \<not> idx < length similarities then None
      else if similarities ! idx > 0 then
        (if idx < length (index s) \<and> idx < length (element_texts s) then
           map_option
             (\<lambda>results.
                \<lparr>element = index s ! idx, score = similarities ! idx,
                 match_type = ''semantic'',
                 matched_terms = extract_matched_terms query (element_texts s ! idx)\<rparr>
                # results)
             (semantic_results s query similarities idxs)
         else None)
      else semantic_results s query similarities idxs)"

definition semantic_search :: "code_search \<Rightarrow> string \<Rightarrow> int \<Rightarrow> search_result list" where
  "semantic_search s query top_k =
     (case vectorizer s of
        None \<Rightarrow> keyword_search s query top_k
      | Some v \<Rightarrow>
          if \<not> use_tfidf s then keyword_search s query top_k
          else
            (case v query of
               None \<Rightarrow> keyword_search s query top_k
             | Some similarities \<Rightarrow>
                 (case semantic_results s query similarities
                         (top_indices (np_argsort s) similarities top_k) of
                    None \<Rightarrow> keyword_search s query top_k
                  | Some results \<Rightarrow> results)))"

subsection \<open>Combining and re-ranking\<close>

definition result_key :: "search_result \<Rightarrow> string" where
  "result_key result = codebase (element result) @ '':'' @ name (element result)"

text \<open>
  \<open>combined_dict\<close> is an insertion-ordered dictionary: an association list in which
  an assignment to a present key keeps the key's place and an assignment to a new key
  goes to the end.
\<close>

definition seed_semantic ::
  "search_result \<Rightarrow> (string \<times> search_result) list \<Rightarrow> (string \<times> search_result) list" where
  "seed_semantic result combined_dict = AList.update (result_key result) result combined_dict"

text \<open>
  \<open>list(set(a + b))\<close> lists each term once in an order Python does not fix; the model
  lists them in the order of first occurrence.
\<close>

definition merge_keyword ::
  "search_result \<Rightarrow> (string \<times> search_result) list \<Rightarrow> (string \<times> search_result) list" where
  "merge_keyword result combined_dict =
     (let key = result_key result
      in case map_of combined_dict key of
           Some existing \<Rightarrow>
             AList.update key
               (existing\<lparr>score := (score existing + score result) / 2 * 1.5,
                         match_type := ''hybrid'',
                         matched_terms :=
                           remdups (matched_terms existing @ matched_terms result)\<rparr>)
               combined_dict
         | None \<Rightarrow> AList.update key result combined_dict)"

definition combine_dict ::
  "search_result list \<Rightarrow> search_result list \<Rightarrow> (string \<times> search_result) list" where
  "combine_dict semantic keyword = fold merge_keyword keyword (fold seed_semantic semantic [])"

definition combine_results ::
  "search_result list \<Rightarrow> search_result list \<Rightarrow> search_result list" where
  "combine_results semantic keyword = map snd (combine_dict semantic keyword)"

definition boost_of :: "string \<Rightarrow> code_element \<Rightarrow> real" where
  "boost_of query_lower elem =
     (let boost = 1.0;
          boost = (if query_lower = lower (name elem) then boost * 2.0
                   else if str_in query_lower (lower (name elem)) then boost * 1.5
                   else boost);
          boost = (if has_docstring elem \<and> str_in query_lower (lower (docstring_text elem))
                   then boost * 1.3 else boost);
          boost = (if elem_type elem \<in> set [''class'', ''function''] then boost * 1.2
                   else boost);
          boost = (if codebase elem \<in> set [''dspy'', ''dspy_cli''] then boost * 1.1
                   else boost)
      in boost)"

text \<open>
  The loop of \<open>rank_results\<close> that multiplies each score by its boost. The source
  updates the result objects in place; the model returns the updated results, the results
  of a list being distinct objects.
\<close>

definition boost_pass :: "search_result list \<Rightarrow> string \<Rightarrow> search_result list" where
  "boost_pass results query =
     (let query_lower = lower query
      in map (\<lambda>result. result\<lparr>score := score result * boost_of query_lower (element result)\<rparr>)
           results)"

definition rank_results :: "search_result list \<Rightarrow> string \<Rightarrow> search_result list" where
  "rank_results results query = sort_desc score (boost_pass results query)"

subsection \<open>Hybrid search and the query cache\<close>

text \<open>\<open>str(n)\<close> for an integer, as the f-string of the cache key formats \<open>top_k\<close>.\<close>

fun str_nat :: "nat \<Rightarrow> string" where
  "str_nat n =
     (if n < 10 then [''0123456789'' ! n]
      else str_nat (n div 10) @ [''0123456789'' ! (n mod 10)])"

definition str_int :: "int \<Rightarrow> string" where
  "str_int i = (if i < 0 then ''-'' @ str_nat (nat (- i)) else str_nat (nat i))"

definition hybrid_cache_key :: "string \<Rightarrow> int \<Rightarrow> string" where
  "hybrid_cache_key query top_k = ''hybrid:'' @ query @ '':'' @ str_int top_k"

text \<open>The result and the object's state after the call.\<close>

definition hybrid_search ::
  "code_search \<Rightarrow> string \<Rightarrow> int \<Rightarrow> search_result list \<times> code_search" where
  "hybrid_search s query top_k =
     (let cache_key = hybrid_cache_key query top_k
      in case query_cache s cache_key of
           Some cached \<Rightarrow> (cached, s)
         | None \<Rightarrow>
             (let results =
                    (if use_tfidf s then
                       (let semantic_res = semantic_search s query (top_k * 2);
                            keyword_res = keyword_search s query (top_k * 2);
                            combined = combine_results semantic_res keyword_res
                        in py_take top_k (rank_results combined query))
                     else keyword_search s query top_k)
              in (results, s\<lparr>query_cache := (query_cache s)(cache_key \<mapsto> results)\<rparr>)))"

definition clear_cache :: "code_search \<Rightarrow> code_search" where
  "clear_cache s = s\<lparr>query_cache := Map.empty\<rparr>"

subsection \<open>Search by name\<close>

datatype py_error = ZeroDivisionError

text \<open>
  The loop of \<open>search_by_name\<close>; \<open>len(name) / len(elem.name)\<close> raises when the
  element's name is empty.
\<close>

fun search_by_name_loop ::
  "string \<Rightarrow> bool \<Rightarrow> code_element list \<Rightarrow> search_result list \<Rightarrow>
   py_error + search_result list" where
  "search_by_name_loop nm exact [] results = Inr results"
| "search_by_name_loop nm exact (elem # elems) results =
     (let name_lower = lower nm;
          elem_name_lower = lower (name elem)
      in if exact then
           (if elem_name_lower = name_lower then
              search_by_name_loop nm exact elems
                (results @ [\<lparr>element = elem, score = 1.0, match_type = ''exact'',
                             matched_terms = [nm]\<rparr>])
            else search_by_name_loop nm exact elems results)
         else if str_in name_lower elem_name_lower then
           (if length (name elem) = 0 then Inl ZeroDivisionError
            else search_by_name_loop nm exact elems
                   (results @ [\<lparr>element = elem,
                                score = real (length nm) / real (length (name elem)),
                                match_type = ''name'', matched_terms = [nm]\<rparr>]))
         else search_by_name_loop nm exact elems results)"

definition search_by_name ::
  "code_search \<Rightarrow> string \<Rightarrow> bool \<Rightarrow> py_error + search_result list" where
  "search_by_name s nm exact =
     (case search_by_name_loop nm exact (index s) [] of
        Inl e \<Rightarrow> Inl e
      | Inr results \<Rightarrow> Inr (sort_desc score results))"

subsection \<open>Example data\<close>

text \<open>The two elements of the spec's end-to-end example, and an index holding them.\<close>

definition parse_config :: code_element where
  "parse_config =
     \<lparr>name = ''parse_config'', elem_type = ''function'', codebase = ''core'',
      signature = ''def parse_config(path)'',
      docstring = Some ''Parse a configuration file'',
      code = ''def parse_config(path): return load(path)''\<rparr>"

definition config_error :: code_element where
  "config_error =
     \<lparr>name = ''ConfigError'', elem_type = ''class'', codebase = ''core'',
      signature = ''class ConfigError(Exception)'', docstring = None,
      code = ''class ConfigError(Exception): pass''\<rparr>"

definition parse_args :: code_element where
  "parse_args =
     \<lparr>name = ''parse_args'', elem_type = ''function'', codebase = ''dspy'',
      signature = ''def parse_args(argv)'', docstring = None,
      code = ''def parse_args(argv): pass''\<rparr>"

definition parse_env :: code_element where
  "parse_env =
     \<lparr>name = ''parse_env'', elem_type = ''method'', codebase = ''core'',
      signature = ''def parse_env(self)'', docstring = None,
      code = ''def parse_env(self): pass''\<rparr>"

text \<open>A search object without the vector backend, with an empty cache.\<close>

definition lexical_search :: code_search where
  "lexical_search =
     new_code_search [parse_config, config_error, parse_args, parse_env] True False
       (\<lambda>texts. None) insertion_argsort"

text \<open>Two results for the same element, as the two strategies of hybrid search give them.\<close>

definition sem04 :: search_result where
  "sem04 = \<lparr>element = parse_config, score = 0.4, match_type = ''semantic'',
            matched_terms = [''parse'']\<rparr>"

definition kw06 :: search_result where
  "kw06 = \<lparr>element = parse_config, score = 0.6, match_type = ''keyword'',
           matched_terms = [''parse'', ''configuration'']\<rparr>"

text \<open>
  A search object with the vector backend over two elements of identical text, for which
  every query has the same similarity to both (a positive one for the query
  \<open>parse_env\<close>, a token of both texts), and with NumPy's sort as it is on two items.
\<close>

definition tie_search :: code_search where
  "tie_search =
     new_code_search [parse_env, parse_env\<lparr>codebase := ''dspy''\<rparr>] True True
       (\<lambda>texts. Some (\<lambda>query. Some [0.5, 0.5])) insertion_argsort"

text \<open>Two result lists for the re-ranker; the query \<open>zzz\<close> matches no name or docstring.\<close>

definition rank_input :: "search_result list" where
  "rank_input =
     [\<lparr>element = parse_env, score = 1.0, match_type = ''keyword'', matched_terms = []\<rparr>,
      \<lparr>element = parse_args, score = 0.7, match_type = ''keyword'', matched_terms = []\<rparr>]"

definition rank_input_aligned :: "search_result list" where
  "rank_input_aligned =
     [\<lparr>element = parse_env, score = 0.7, match_type = ''keyword'', matched_terms = []\<rparr>,
      \<lparr>element = parse_args, score = 1.0, match_type = ''keyword'', matched_terms = []\<rparr>]"

subsection \<open>The lexical score in closed form\<close>

text \<open>What one keyword adds to the score of an element: the weights of the fields it occurs in.\<close>

definition keyword_weight :: "code_element \<Rightarrow> string \<Rightarrow> real" where
  "keyword_weight elem keyword =
     (if str_in keyword (lower (name elem)) then 3.0 else 0)
     + (if has_docstring elem \<and> str_in keyword (lower (docstring_text elem)) then 2.0 else 0)
     + (if str_in keyword (lower (signature elem)) then 1.5 else 0)
     + (if str_in keyword (lower (code elem)) then 0.5 else 0)"

text \<open>
  The score as the specification words it, a keyword that is repeated in the list counting
  once.
\<close>

definition claimed_score :: "code_element \<Rightarrow> string list \<Rightarrow> real" where
  "claimed_score elem kws = sum_list (map (keyword_weight elem) (remdups kws))"

subsection \<open>The top indices as the specification words them\<close>

text \<open>
  The indices of the \<open>top_k\<close> highest similarities strictly greater than zero, in
  descending order, the first-indexed element first among equal similarities.
\<close>

definition claimed_top_indices :: "real list \<Rightarrow> int \<Rightarrow> nat list" where
  "claimed_top_indices similarities top_k =
     py_take top_k
       (sort_desc (\<lambda>idx. similarities ! idx)
          (filter (\<lambda>idx. similarities ! idx > 0) [0..<length similarities]))"

subsection \<open>Sorting and slicing\<close>

lemma sort_desc_sorted: "sorted_wrt (\<lambda>a b. f a \<ge> f b) (sort_desc f xs)"
proof -
  have "sorted (map (\<lambda>x. - f x) (sort_key (\<lambda>x. - f x) xs))"
    by (rule sorted_sort_key)
  then show ?thesis
    by (simp add: sort_desc_def sorted_map)
qed

lemma sort_desc_stable:
  "filter (\<lambda>y. f y = k) (sort_desc f xs) = filter (\<lambda>y. f y = k) xs"
proof -
  have "filter (\<lambda>y. - f y = - k) (sort_key (\<lambda>x. - f x) xs) = filter (\<lambda>y. - f y = - k) xs"
    by (rule sort_key_stable)
  then show ?thesis
    by (simp add: sort_desc_def)
qed

lemma sort_desc_id:
  assumes "sorted_wrt (\<lambda>a b. f a \<ge> f b) xs"
  shows "sort_desc f xs = xs"
proof -
  have "sorted (map (\<lambda>x. - f x) xs)"
    using assms by (simp add: sorted_map)
  then show ?thesis
    unfolding sort_desc_def by (rule sort_key_id_if_sorted)
qed

lemma set_sort_desc: "set (sort_desc f xs) = set xs"
  by (simp add: sort_desc_def)

lemma length_sort_desc: "length (sort_desc f xs) = length xs"
  by (simp add: sort_desc_def)

lemma insort_key_map_commute:
  "insort_key f (g x) (map g xs) = map g (insort_key (\<lambda>y. f (g y)) x xs)"
  by (induction xs) simp_all

lemma sort_desc_map: "sort_desc f (map g xs) = map g (sort_desc (\<lambda>y. f (g y)) xs)"
  unfolding sort_desc_def
  by (induction xs) (simp_all add: insort_key_map_commute)

lemma py_take_map: "py_take k (map g xs) = map g (py_take k xs)"
  by (simp add: py_take_def take_map)

lemma py_take_prefix: "prefix (py_take k xs) xs"
  by (simp add: py_take_def take_is_prefix)

lemma py_take_length: "0 \<le> k \<Longrightarrow> int (length (py_take k xs)) \<le> k"
  by (simp add: py_take_def)

lemma set_py_take: "set (py_take k xs) \<subseteq> set xs"
  by (auto simp: py_take_def dest: in_set_takeD)

lemma sorted_wrt_py_take: "sorted_wrt R xs \<Longrightarrow> sorted_wrt R (py_take k xs)"
  by (simp add: py_take_def sorted_wrt_take)

text \<open>The ranking of keyword search before the results are built.\<close>

lemma keyword_search_eq:
  assumes "extract_keywords query \<noteq> []"
  shows "keyword_search s query top_k =
     map (\<lambda>elem. \<lparr>element = elem,
                   score = score_element_keywords elem (extract_keywords query),
                   match_type = ''keyword'',
                   matched_terms = extract_keywords query\<rparr>)
       (py_take top_k
          (sort_desc (\<lambda>elem. score_element_keywords elem (extract_keywords query))
             (filter (\<lambda>elem. score_element_keywords elem (extract_keywords query) > 0)
                (index s))))"
  using assms
  by (simp add: keyword_search_def Let_def filter_map comp_def sort_desc_map py_take_map)

lemmas eval_simps = lower_def lower_char_def is_word_char_def stop_words_def
  extract_keywords_def score_element_keywords_def has_docstring_def docstring_text_def
  keyword_search_def sort_desc_def py_take_def Let_def
  parse_config_def config_error_def parse_args_def parse_env_def
  lexical_search_def new_code_search_def

subsection \<open>Properties\<close>

text \<open>
  C10. A query whose every token is a stop word or has at most two characters has no
  keywords, and keyword search then returns the empty list, whatever the index and
  whatever \<open>top_k\<close>: no element is looked at.
\<close>

theorem keyword_search_no_keywords:
  assumes "\<forall>w \<in> set (findall_words [] (lower query)). w \<in> set stop_words \<or> length w \<le> 2"
  shows "extract_keywords query = [] \<and> keyword_search s query top_k = []"
proof -
  have "extract_keywords query = []"
    using assms by (auto simp: extract_keywords_def filter_empty_conv)
  then show ?thesis
    by (simp add: keyword_search_def)
qed

theorem keyword_search_no_keywords_witness:
  "findall_words [] (lower ''How to use it'') = [''how'', ''to'', ''use'', ''it'']
   \<and> extract_keywords ''How to use it'' = []
   \<and> keyword_search lexical_search ''How to use it'' 5 = []"
proof -
  have h: "\<forall>w \<in> set (findall_words [] (lower ''How to use it'')).
             w \<in> set stop_words \<or> length w \<le> 2"
    by (simp add: lower_def lower_char_def is_word_char_def stop_words_def)
  have "findall_words [] (lower ''How to use it'') = [''how'', ''to'', ''use'', ''it'']"
    by (simp add: lower_def lower_char_def is_word_char_def)
  then show ?thesis
    using keyword_search_no_keywords [OF h, of lexical_search 5] by blast
qed

text \<open>
  C4. For a query with at least one keyword, keyword search returns the elements of the
  index whose lexical score is strictly positive, in descending order of score, cut to the
  slice \<open>[:top_k]\<close>, each as a result with its score; when \<open>top_k\<close> is at least their
  number, all of them are returned. Hence every result is an element of the index with
  its lexical score, which is strictly positive; the results are in descending order of
  score; results of equal score come in the order of the index; a non-negative \<open>top_k\<close>
  bounds their number; and the list is the slice \<open>[:top_k]\<close> of the full ranking.
\<close>

theorem keyword_search_ranked:
  assumes "extract_keywords query \<noteq> []"
  shows "keyword_search s query top_k =
           map (\<lambda>elem. \<lparr>element = elem,
                         score = score_element_keywords elem (extract_keywords query),
                         match_type = ''keyword'',
                         matched_terms = extract_keywords query\<rparr>)
             (py_take top_k
                (sort_desc (\<lambda>elem. score_element_keywords elem (extract_keywords query))
                   (filter (\<lambda>elem. score_element_keywords elem (extract_keywords query) > 0)
                      (index s))))
       \<and> (int (length (filter (\<lambda>elem. score_element_keywords elem (extract_keywords query) > 0)
                          (index s))) \<le> top_k
            \<longrightarrow> set (map element (keyword_search s query top_k))
                  = {elem \<in> set (index s).
                       score_element_keywords elem (extract_keywords query) > 0})
       \<and> (\<forall>r \<in> set (keyword_search s query top_k).
            element r \<in> set (index s)
            \<and> score r = score_element_keywords (element r) (extract_keywords query)
            \<and> score r > 0)
       \<and> sorted_wrt (\<lambda>a b. score a \<ge> score b) (keyword_search s query top_k)
       \<and> (\<forall>v. prefix (map element (filter (\<lambda>r. score r = v) (keyword_search s query top_k)))
                 (filter (\<lambda>elem. score_element_keywords elem (extract_keywords query) = v)
                    (index s)))
       \<and> (0 \<le> top_k \<longrightarrow> int (length (keyword_search s query top_k)) \<le> top_k)
       \<and> keyword_search s query top_k
           = py_take top_k (keyword_search s query (int (length (index s))))"
proof -
  let ?kws = "extract_keywords query"
  let ?sc = "\<lambda>elem. score_element_keywords elem ?kws"
  let ?mk = "\<lambda>elem. \<lparr>element = elem, score = ?sc elem, match_type = ''keyword'',
                      matched_terms = ?kws\<rparr>"
  let ?pos = "filter (\<lambda>elem. ?sc elem > 0) (index s)"
  let ?ranked = "sort_desc ?sc ?pos"
  have eq: "keyword_search s query k = map ?mk (py_take k ?ranked)" for k
    using assms by (rule keyword_search_eq)
  have sub: "set (py_take top_k ?ranked) \<subseteq> set ?pos"
    using set_py_take [of top_k ?ranked] by (simp add: set_sort_desc)
  have c1: "\<forall>r \<in> set (keyword_search s query top_k).
              element r \<in> set (index s) \<and> score r = ?sc (element r) \<and> score r > 0"
    using sub by (auto simp: eq)
  have "sorted_wrt (\<lambda>a b. ?sc a \<ge> ?sc b) (py_take top_k ?ranked)"
    by (intro sorted_wrt_py_take sort_desc_sorted)
  then have c2: "sorted_wrt (\<lambda>a b. score a \<ge> score b) (keyword_search s query top_k)"
    by (simp add: eq sorted_wrt_map)
  have c3: "prefix (map element (filter (\<lambda>r. score r = v) (keyword_search s query top_k)))
              (filter (\<lambda>elem. ?sc elem = v) (index s))" for v
  proof -
    have "map element (filter (\<lambda>r. score r = v) (keyword_search s query top_k))
            = filter (\<lambda>elem. ?sc elem = v) (py_take top_k ?ranked)"
      by (simp add: eq filter_map comp_def)
    moreover have "prefix (filter (\<lambda>elem. ?sc elem = v) (py_take top_k ?ranked))
                     (filter (\<lambda>elem. ?sc elem = v) ?ranked)"
      by (intro filter_mono_prefix py_take_prefix)
    moreover have "filter (\<lambda>elem. ?sc elem = v) ?ranked = filter (\<lambda>elem. ?sc elem = v) ?pos"
      by (rule sort_desc_stable)
    moreover have "prefix (filter (\<lambda>elem. ?sc elem = v) ?pos)
                     (filter (\<lambda>elem. ?sc elem = v) (index s))"
    proof (cases "v > 0")
      case True
      then have "filter (\<lambda>elem. ?sc elem = v) ?pos = filter (\<lambda>elem. ?sc elem = v) (index s)"
        by (simp add: conj_commute cong: conj_cong)
      then show ?thesis by simp
    next
      case False
      then have "filter (\<lambda>elem. ?sc elem = v) ?pos = []"
        by (auto simp: filter_empty_conv)
      then show ?thesis by simp
    qed
    ultimately show ?thesis by (simp only: prefix_order.trans)
  qed
  have c4: "0 \<le> top_k \<longrightarrow> int (length (keyword_search s query top_k)) \<le> top_k"
    by (simp add: eq py_take_length)
  have full: "py_take (int (length (index s))) ?ranked = ?ranked"
    by (simp add: py_take_def length_sort_desc)
  have c5: "keyword_search s query top_k
              = py_take top_k (keyword_search s query (int (length (index s))))"
    by (simp add: eq [of top_k] eq [of "int (length (index s))"] full py_take_map)
  have c6: "set (map element (keyword_search s query top_k))
              = {elem \<in> set (index s). ?sc elem > 0}"
    if "int (length ?pos) \<le> top_k"
  proof -
    from that have "py_take top_k ?ranked = ?ranked"
      by (simp add: py_take_def length_sort_desc)
    then have "map element (keyword_search s query top_k) = ?ranked"
      by (simp add: eq comp_def)
    then show ?thesis
      by (simp add: set_sort_desc)
  qed
  from eq [of top_k] c1 c2 c3 c4 c5 c6 show ?thesis by blast
qed

theorem keyword_search_ranked_witness:
  "extract_keywords ''Parse'' = [''parse'']
   \<and> keyword_search lexical_search ''Parse'' 2 =
       [\<lparr>element = parse_config, score = 7, match_type = ''keyword'',
         matched_terms = [''parse'']\<rparr>,
        \<lparr>element = parse_args, score = 5, match_type = ''keyword'',
         matched_terms = [''parse'']\<rparr>]
   \<and> sorted_wrt (\<lambda>a b. score a \<ge> score b) (keyword_search lexical_search ''Parse'' 2)
   \<and> int (length (keyword_search lexical_search ''Parse'' 2)) \<le> 2
   \<and> keyword_search lexical_search ''Parse'' 2
       = py_take 2 (keyword_search lexical_search ''Parse'' (int (length (index lexical_search))))"
proof -
  have kws: "extract_keywords ''Parse'' = [''parse'']"
    by (simp add: eval_simps)
  then have ne: "extract_keywords ''Parse'' \<noteq> []"
    by simp
  have res: "keyword_search lexical_search ''Parse'' 2 =
       [\<lparr>element = parse_config, score = 7, match_type = ''keyword'',
         matched_terms = [''parse'']\<rparr>,
        \<lparr>element = parse_args, score = 5, match_type = ''keyword'',
         matched_terms = [''parse'']\<rparr>]"
    by (simp add: eval_simps)
  note ranked = keyword_search_ranked [OF ne, of lexical_search 2]
  have srt: "sorted_wrt (\<lambda>a b. score a \<ge> score b) (keyword_search lexical_search ''Parse'' 2)"
    using ranked by blast
  from ranked
  have "0 \<le> (2::int) \<longrightarrow> int (length (keyword_search lexical_search ''Parse'' 2)) \<le> 2"
    by blast
  then have len: "int (length (keyword_search lexical_search ''Parse'' 2)) \<le> 2"
    by simp
  have slice: "keyword_search lexical_search ''Parse'' 2
       = py_take 2 (keyword_search lexical_search ''Parse'' (int (length (index lexical_search))))"
    using ranked by blast
  show ?thesis
    by (intro conjI) (rule kws res srt len slice)+
qed

lemma score_loop_sum:
  "score_loop w field kws sc
     = sc + sum_list (map (\<lambda>keyword. if str_in keyword field then w else 0) kws)"
  by (induction kws arbitrary: sc) simp_all

text \<open>
  C5 (as amended). The lexical score is the sum, over the keyword list, of the weights of
  the fields whose lowercased text contains the keyword (name 3.0, docstring 2.0 when
  present, signature 1.5, code 0.5). A field adds its weight once for each entry of the
  list, however often the keyword occurs in the text.
\<close>

theorem score_element_keywords_sum:
  "score_element_keywords elem kws = sum_list (map (keyword_weight elem) kws)"
proof (cases "has_docstring elem")
  case True
  then show ?thesis
    unfolding keyword_weight_def [abs_def]
    by (simp add: score_element_keywords_def score_loop_sum sum_list_addf cong: if_cong)
next
  case False
  then show ?thesis
    unfolding keyword_weight_def [abs_def]
    by (simp add: score_element_keywords_def score_loop_sum sum_list_addf cong: if_cong)
qed

text \<open>
  C5 as stated fails: the query \<open>parse parse\<close> gives the keyword twice, and an
  element with the keyword in its name, signature and code scores 10, not 5.
\<close>

theorem score_counts_repeated_keyword:
  "extract_keywords ''parse parse'' = [''parse'', ''parse'']
   \<and> score_element_keywords parse_env (extract_keywords ''parse parse'') = 10
   \<and> claimed_score parse_env (extract_keywords ''parse parse'') = 5"
  by (simp add: eval_simps claimed_score_def keyword_weight_def)

theorem score_element_keywords_sum_witness:
  "score_element_keywords parse_env [''parse'', ''parse'']
     = keyword_weight parse_env ''parse'' + keyword_weight parse_env ''parse''
   \<and> keyword_weight parse_env ''parse'' = 5"
  using score_element_keywords_sum [of parse_env "[''parse'', ''parse'']"]
  by (simp add: keyword_weight_def eval_simps)

lemma map_of_seed_semantic:
  "map_of (seed_semantic r d) = (map_of d)(result_key r \<mapsto> r)"
  by (simp add: seed_semantic_def update_conv')

lemma map_of_merge_keyword:
  "map_of (merge_keyword r d) =
     (map_of d)(result_key r \<mapsto>
        (case map_of d (result_key r) of
           None \<Rightarrow> r
         | Some existing \<Rightarrow>
             existing\<lparr>score := (score existing + score r) / 2 * 1.5,
                       match_type := ''hybrid'',
                       matched_terms := remdups (matched_terms existing @ matched_terms r)\<rparr>))"
  by (simp add: merge_keyword_def Let_def update_conv' split: option.split)

lemma fold_seed_other:
  "\<forall>p \<in> set rs. result_key p \<noteq> k \<Longrightarrow> map_of (fold seed_semantic rs d) k = map_of d k"
  by (induction rs arbitrary: d) (auto simp: map_of_seed_semantic)

lemma fold_merge_other:
  "\<forall>p \<in> set rs. result_key p \<noteq> k \<Longrightarrow> map_of (fold merge_keyword rs d) k = map_of d k"
  by (induction rs arbitrary: d) (auto simp: map_of_merge_keyword)

lemma dom_seed_semantic:
  "dom (map_of (seed_semantic r d)) = insert (result_key r) (dom (map_of d))"
  by (simp add: map_of_seed_semantic)

lemma dom_merge_keyword:
  "dom (map_of (merge_keyword r d)) = insert (result_key r) (dom (map_of d))"
  by (simp add: map_of_merge_keyword)

lemma fold_seed_present:
  "k \<in> dom (map_of d) \<or> k \<in> result_key ` set rs \<Longrightarrow> k \<in> dom (map_of (fold seed_semantic rs d))"
proof (induction rs arbitrary: d)
  case Nil
  then show ?case by simp
next
  case (Cons a rs)
  from Cons.prems
  have "k \<in> dom (map_of (seed_semantic a d)) \<or> k \<in> result_key ` set rs"
    unfolding dom_seed_semantic by auto
  then have "k \<in> dom (map_of (fold seed_semantic rs (seed_semantic a d)))"
    by (rule Cons.IH)
  then show ?case by simp
qed

lemma fold_merge_present:
  "k \<in> dom (map_of d) \<Longrightarrow> k \<in> dom (map_of (fold merge_keyword rs d))"
proof (induction rs arbitrary: d)
  case Nil
  then show ?case by simp
next
  case (Cons a rs)
  from Cons.prems have "k \<in> dom (map_of (merge_keyword a d))"
    unfolding dom_merge_keyword by simp
  then have "k \<in> dom (map_of (fold merge_keyword rs (merge_keyword a d)))"
    by (rule Cons.IH)
  then show ?case by simp
qed

lemma fold_seed_distinct:
  "distinct (map result_key rs) \<Longrightarrow> s \<in> set rs \<Longrightarrow>
     map_of (fold seed_semantic rs d) (result_key s) = Some s"
proof (induction rs arbitrary: d)
  case Nil
  then show ?case by simp
next
  case (Cons x xs)
  show ?case
  proof (cases "s = x")
    case True
    from Cons.prems have "result_key x \<notin> result_key ` set xs"
      by simp
    then have "\<forall>p \<in> set xs. result_key p \<noteq> result_key s"
      unfolding True by (metis image_eqI)
    then show ?thesis
      using True by (simp add: fold_seed_other map_of_seed_semantic)
  next
    case False
    with Cons show ?thesis by simp
  qed
qed

lemma combine_dict_snoc:
  "combine_dict semantic (pre @ [r]) = merge_keyword r (combine_dict semantic pre)"
  by (simp add: combine_dict_def)

lemma combine_dict_append:
  "combine_dict semantic (pre @ post) = fold merge_keyword post (combine_dict semantic pre)"
  by (simp add: combine_dict_def)

lemma result_key_eq:
  "codebase (element r) = codebase (element s) \<Longrightarrow> name (element r) = name (element s) \<Longrightarrow>
     result_key r = result_key s"
  by (simp add: result_key_def)

text \<open>
  C1. When a keyword result \<open>r\<close> has the codebase and name of a seeded semantic result,
  its key is in the dictionary when \<open>r\<close> is reached; the entry \<open>existing\<close> found there
  is replaced by one with score \<open>(existing.score + r.score) / 2 * 1.5\<close>, match type
  \<open>hybrid\<close> and, as matched terms, each term of either result once. That entry is the
  seeded result itself when the semantic keys are distinct and no earlier keyword result
  has the key, and it is in the combiner's output when no later keyword result has the
  key.
\<close>

theorem combine_results_merge:
  assumes seeded: "s \<in> set semantic"
    and same: "codebase (element r) = codebase (element s)" "name (element r) = name (element s)"
  shows "\<exists>existing.
           map_of (combine_dict semantic pre) (result_key r) = Some existing
         \<and> map_of (combine_dict semantic (pre @ [r])) (result_key r) =
             Some (existing\<lparr>score := (score existing + score r) / 2 * 1.5,
                             match_type := ''hybrid'',
                             matched_terms := remdups (matched_terms existing @ matched_terms r)\<rparr>)
         \<and> set (remdups (matched_terms existing @ matched_terms r))
             = set (matched_terms existing) \<union> set (matched_terms r)
         \<and> distinct (remdups (matched_terms existing @ matched_terms r))
         \<and> (distinct (map result_key semantic) \<and> (\<forall>p \<in> set pre. result_key p \<noteq> result_key r)
              \<longrightarrow> existing = s)
         \<and> ((\<forall>p \<in> set post. result_key p \<noteq> result_key r)
              \<longrightarrow> existing\<lparr>score := (score existing + score r) / 2 * 1.5,
                             match_type := ''hybrid'',
                             matched_terms := remdups (matched_terms existing @ matched_terms r)\<rparr>
                    \<in> set (combine_results semantic (pre @ r # post)))"
proof -
  let ?k = "result_key r"
  have key: "?k = result_key s"
    using same by (rule result_key_eq)
  have "?k \<in> dom (map_of (fold seed_semantic semantic []))"
    using seeded key by (intro fold_seed_present) auto
  then have "?k \<in> dom (map_of (combine_dict semantic pre))"
    unfolding combine_dict_def by (rule fold_merge_present)
  then obtain existing where ex: "map_of (combine_dict semantic pre) ?k = Some existing"
    by auto
  let ?merged = "existing\<lparr>score := (score existing + score r) / 2 * 1.5,
                           match_type := ''hybrid'',
                           matched_terms := remdups (matched_terms existing @ matched_terms r)\<rparr>"
  have step: "map_of (combine_dict semantic (pre @ [r])) ?k = Some ?merged"
    using ex by (simp add: combine_dict_snoc map_of_merge_keyword)
  have first: "existing = s"
    if "distinct (map result_key semantic)" "\<forall>p \<in> set pre. result_key p \<noteq> ?k"
  proof -
    have "map_of (combine_dict semantic pre) ?k = map_of (fold seed_semantic semantic []) ?k"
      unfolding combine_dict_def using that(2) by (rule fold_merge_other)
    also have "\<dots> = Some s"
      unfolding key using that(1) seeded by (rule fold_seed_distinct)
    finally show ?thesis using ex by simp
  qed
  have final: "?merged \<in> set (combine_results semantic (pre @ r # post))"
    if "\<forall>p \<in> set post. result_key p \<noteq> ?k"
  proof -
    have "combine_dict semantic (pre @ r # post)
            = fold merge_keyword post (combine_dict semantic (pre @ [r]))"
      using combine_dict_append [of semantic "pre @ [r]" post] by simp
    then have "map_of (combine_dict semantic (pre @ r # post)) ?k = Some ?merged"
      using that step by (simp add: fold_merge_other)
    then have "(?k, ?merged) \<in> set (combine_dict semantic (pre @ r # post))"
      by (rule map_of_SomeD)
    then show ?thesis
      unfolding combine_results_def by force
  qed
  show ?thesis
    using ex step first final by (intro exI [of _ existing]) simp
qed

theorem combine_results_merge_witness:
  "sem04 \<in> set [sem04]
   \<and> codebase (element kw06) = codebase (element sem04)
   \<and> name (element kw06) = name (element sem04)
   \<and> score sem04 = 0.4 \<and> score kw06 = 0.6
   \<and> combine_results [sem04] [kw06] =
       [\<lparr>element = parse_config, score = 0.75, match_type = ''hybrid'',
         matched_terms = [''parse'', ''configuration'']\<rparr>]"
proof -
  have h1: "sem04 \<in> set [sem04]"
    by simp
  have h2: "codebase (element kw06) = codebase (element sem04)"
    by (simp add: sem04_def kw06_def)
  have h3: "name (element kw06) = name (element sem04)"
    by (simp add: sem04_def kw06_def)
  have res: "combine_results [sem04] [kw06] =
       [\<lparr>element = parse_config, score = 0.75, match_type = ''hybrid'',
         matched_terms = [''parse'', ''configuration'']\<rparr>]"
    by (simp add: combine_results_def combine_dict_def seed_semantic_def merge_keyword_def
          result_key_def sem04_def kw06_def parse_config_def)
  have sc: "score sem04 = 0.4 \<and> score kw06 = 0.6"
    by (simp add: sem04_def kw06_def)
  show ?thesis
    using h1 h2 h3 res sc combine_results_merge [OF h1 h2 h3, of "[]" "[]"] by blast
qed

text \<open>
  C7. Without the vector backend and with no cache entry for the key, hybrid search
  returns what keyword search returns for the same query and the same \<open>top_k\<close>, and
  stores it under the key.
\<close>

theorem hybrid_search_unavailable:
  assumes "\<not> use_tfidf s"
    and "query_cache s (hybrid_cache_key query top_k) = None"
  shows "fst (hybrid_search s query top_k) = keyword_search s query top_k
       \<and> snd (hybrid_search s query top_k)
           = s\<lparr>query_cache := (query_cache s)(hybrid_cache_key query top_k \<mapsto>
                                   keyword_search s query top_k)\<rparr>"
  using assms by (simp add: hybrid_search_def Let_def)

theorem hybrid_search_unavailable_witness:
  "\<not> use_tfidf lexical_search
   \<and> query_cache lexical_search (hybrid_cache_key ''Parse'' 2) = None
   \<and> fst (hybrid_search lexical_search ''Parse'' 2) = keyword_search lexical_search ''Parse'' 2
   \<and> map (name \<circ> element) (fst (hybrid_search lexical_search ''Parse'' 2))
       = [''parse_config'', ''parse_args'']"
proof -
  have h1: "\<not> use_tfidf lexical_search"
    by (simp add: lexical_search_def new_code_search_def)
  have h2: "query_cache lexical_search (hybrid_cache_key ''Parse'' 2) = None"
    by (simp add: lexical_search_def new_code_search_def)
  have res: "map (name \<circ> element) (keyword_search lexical_search ''Parse'' 2)
       = [''parse_config'', ''parse_args'']"
    by (simp add: eval_simps)
  show ?thesis
    using h1 h2 res hybrid_search_unavailable [OF h1 h2] by simp
qed

lemma hybrid_search_stores:
  assumes "hybrid_search s query top_k = (r1, s1)"
  shows "query_cache s1 (hybrid_cache_key query top_k) = Some r1"
proof (cases "query_cache s (hybrid_cache_key query top_k)")
  case None
  with assms show ?thesis
    by (auto simp: hybrid_search_def Let_def)
next
  case (Some cached)
  with assms show ?thesis
    by (auto simp: hybrid_search_def Let_def)
qed

lemma hybrid_search_hit:
  assumes "query_cache s (hybrid_cache_key query top_k) = Some cached"
  shows "hybrid_search s query top_k = (cached, s)"
  using assms by (simp add: hybrid_search_def Let_def)

text \<open>
  C6. After a call of hybrid search, the cache holds the returned list under the key of
  \<open>(query, top_k)\<close>; a second call with the same pair returns that list and leaves the
  object as it is; and the second result is the same whatever the index and the vector
  backend are by then: neither scorer nor the re-ranker has a part in it.
\<close>

theorem hybrid_search_cached:
  assumes "hybrid_search s query top_k = (r1, s1)"
  shows "query_cache s1 (hybrid_cache_key query top_k) = Some r1
       \<and> hybrid_search s1 query top_k = (r1, s1)
       \<and> (\<forall>elems u v texts.
            fst (hybrid_search
                   (s1\<lparr>index := elems, use_tfidf := u, vectorizer := v, element_texts := texts\<rparr>)
                   query top_k) = r1)"
proof -
  have stored: "query_cache s1 (hybrid_cache_key query top_k) = Some r1"
    using assms by (rule hybrid_search_stores)
  then have again: "hybrid_search s1 query top_k = (r1, s1)"
    by (rule hybrid_search_hit)
  have "fst (hybrid_search
               (s1\<lparr>index := elems, use_tfidf := u, vectorizer := v, element_texts := texts\<rparr>)
               query top_k) = r1" for elems u v texts
    using stored by (simp add: hybrid_search_hit)
  with stored again show ?thesis by blast
qed

theorem hybrid_search_cached_witness:
  "fst (hybrid_search (snd (hybrid_search lexical_search ''Parse'' 2)) ''Parse'' 2)
     = fst (hybrid_search lexical_search ''Parse'' 2)
   \<and> snd (hybrid_search (snd (hybrid_search lexical_search ''Parse'' 2)) ''Parse'' 2)
     = snd (hybrid_search lexical_search ''Parse'' 2)
   \<and> map (name \<circ> element) (fst (hybrid_search lexical_search ''Parse'' 2))
       = [''parse_config'', ''parse_args'']"
proof -
  have h: "hybrid_search lexical_search ''Parse'' 2
             = (fst (hybrid_search lexical_search ''Parse'' 2),
                snd (hybrid_search lexical_search ''Parse'' 2))"
    by simp
  have h1: "\<not> use_tfidf lexical_search"
    by (simp add: lexical_search_def new_code_search_def)
  have h2: "query_cache lexical_search (hybrid_cache_key ''Parse'' 2) = None"
    by (simp add: lexical_search_def new_code_search_def)
  have "fst (hybrid_search lexical_search ''Parse'' 2) = keyword_search lexical_search ''Parse'' 2"
    using h1 h2 by (simp add: hybrid_search_def Let_def)
  moreover have "map (name \<circ> element) (keyword_search lexical_search ''Parse'' 2)
       = [''parse_config'', ''parse_args'']"
    by (simp add: eval_simps)
  ultimately show ?thesis
    using hybrid_search_cached [OF h] by simp
qed

lemma insertion_argsort_is_argsort: "is_argsort_of xs (insertion_argsort xs)"
  by (simp add: is_argsort_of_def insertion_argsort_def)

lemma set_top_indices:
  assumes "is_argsort_of sims (argsort sims)"
  shows "set (top_indices argsort sims k) \<subseteq> {0..<length sims}"
  using assms set_py_take [of k "rev (argsort sims)"]
  by (simp add: top_indices_def is_argsort_of_def)

lemma distinct_top_indices:
  assumes "is_argsort_of sims (argsort sims)"
  shows "distinct (top_indices argsort sims k)"
  using assms by (simp add: top_indices_def py_take_def is_argsort_of_def)

lemma semantic_results_closed:
  assumes "\<forall>idx \<in> set idxs.
             idx < length sims \<and> idx < length (index s) \<and> idx < length (element_texts s)"
  shows "semantic_results s query sims idxs =
     Some (map (\<lambda>idx. \<lparr>element = index s ! idx, score = sims ! idx,
                         match_type = ''semantic'',
                         matched_terms = extract_matched_terms query (element_texts s ! idx)\<rparr>)
             (filter (\<lambda>idx. sims ! idx > 0) idxs))"
  using assms by (induction idxs) simp_all

lemma argsort_values:
  assumes "is_argsort_of sims idxs"
  shows "map (\<lambda>idx. sims ! idx) idxs = sort sims"
proof -
  from assms have d: "distinct idxs" and st: "set idxs = set [0..<length sims]"
    and so: "sorted (map (\<lambda>idx. sims ! idx) idxs)"
    by (simp_all add: is_argsort_of_def)
  from d st have "mset idxs = mset [0..<length sims]"
    by (metis distinct_upt set_eq_iff_mset_eq_distinct)
  then have "mset (map (\<lambda>idx. sims ! idx) idxs) = mset (map (\<lambda>idx. sims ! idx) [0..<length sims])"
    by simp
  then have "mset (map (\<lambda>idx. sims ! idx) idxs) = mset sims"
    by (simp add: map_nth)
  then have "sort sims = map (\<lambda>idx. sims ! idx) idxs"
    using so by (rule properties_for_sort)
  then show ?thesis
    by simp
qed

lemma semantic_search_available:
  assumes "use_tfidf s" "vectorizer s = Some v" "v query = Some sims"
    and "is_argsort_of sims (np_argsort s sims)"
    and "length sims = length (index s)" "length (element_texts s) = length (index s)"
  shows "semantic_search s query top_k =
     map (\<lambda>idx. \<lparr>element = index s ! idx, score = sims ! idx, match_type = ''semantic'',
                   matched_terms = extract_matched_terms query (element_texts s ! idx)\<rparr>)
       (filter (\<lambda>idx. sims ! idx > 0) (top_indices (np_argsort s) sims top_k))"
proof -
  have "\<forall>idx \<in> set (top_indices (np_argsort s) sims top_k).
          idx < length sims \<and> idx < length (index s) \<and> idx < length (element_texts s)"
    using set_top_indices [where argsort = "np_argsort s", OF assms(4), of top_k] assms(5,6)
    by auto
  then show ?thesis
    using assms(1-3) by (simp add: semantic_search_def semantic_results_closed)
qed

lemma top_indices_dominate:
  assumes "is_argsort_of sims (argsort sims)"
    and "i \<in> set (top_indices argsort sims k)"
    and "j < length sims" "j \<notin> set (top_indices argsort sims k)"
  shows "sims ! j \<le> sims ! i"
proof -
  let ?d = "rev (argsort sims)"
  have "\<exists>n. top_indices argsort sims k = take n ?d"
    by (auto simp: top_indices_def py_take_def)
  then obtain n where top: "top_indices argsort sims k = take n ?d"
    by blast
  have "sorted_wrt (\<lambda>a b. sims ! a \<ge> sims ! b) ?d"
    using assms(1) by (simp add: is_argsort_of_def sorted_wrt_rev sorted_map)
  then have "sorted_wrt (\<lambda>a b. sims ! a \<ge> sims ! b) (take n ?d @ drop n ?d)"
    by simp
  then have le: "\<forall>a \<in> set (take n ?d). \<forall>b \<in> set (drop n ?d). sims ! b \<le> sims ! a"
    unfolding sorted_wrt_append by blast
  have "j \<in> set ?d"
    using assms(1,3) by (simp add: is_argsort_of_def)
  then have "j \<in> set (take n ?d) \<union> set (drop n ?d)"
    by (metis append_take_drop_id set_append)
  with assms(4) top have "j \<in> set (drop n ?d)"
    by simp
  with le assms(2) top show ?thesis
    by simp
qed

text \<open>
  C3 (as amended). With the vector backend available, one similarity per element and an
  argsort that gives every index once in ascending order of similarity, semantic search
  returns the elements at the top indices whose similarity is strictly positive. Their
  scores are the \<open>top_k\<close> highest similarities with the non-positive ones left out, in
  descending order; the top indices are distinct indices of the index, and no index left
  out has a higher similarity than one taken. Which of several indices of equal similarity
  comes first is the argsort's choice: nothing is said of it.
\<close>

theorem semantic_search_top_k:
  assumes "use_tfidf s" "vectorizer s = Some v" "v query = Some sims"
    and "is_argsort_of sims (np_argsort s sims)"
    and "length sims = length (index s)" "length (element_texts s) = length (index s)"
  shows "semantic_search s query top_k =
           map (\<lambda>idx. \<lparr>element = index s ! idx, score = sims ! idx, match_type = ''semantic'',
                         matched_terms = extract_matched_terms query (element_texts s ! idx)\<rparr>)
             (filter (\<lambda>idx. sims ! idx > 0) (top_indices (np_argsort s) sims top_k))
       \<and> map score (semantic_search s query top_k)
           = filter (\<lambda>x. x > 0) (py_take top_k (rev (sort sims)))
       \<and> sorted_wrt (\<lambda>a b. a \<ge> b) (map score (semantic_search s query top_k))
       \<and> distinct (top_indices (np_argsort s) sims top_k)
       \<and> set (top_indices (np_argsort s) sims top_k) \<subseteq> {0..<length sims}
       \<and> map (\<lambda>idx. sims ! idx) (top_indices (np_argsort s) sims top_k)
           = py_take top_k (rev (sort sims))
       \<and> (\<forall>i \<in> set (top_indices (np_argsort s) sims top_k). \<forall>j < length sims.
             j \<notin> set (top_indices (np_argsort s) sims top_k) \<longrightarrow> sims ! j \<le> sims ! i)"
proof -
  let ?mk = "\<lambda>idx. \<lparr>element = index s ! idx, score = sims ! idx, match_type = ''semantic'',
                     matched_terms = extract_matched_terms query (element_texts s ! idx)\<rparr>"
  let ?top = "top_indices (np_argsort s) sims top_k"
  have a: "semantic_search s query top_k = map ?mk (filter (\<lambda>idx. sims ! idx > 0) ?top)"
    using assms by (rule semantic_search_available)
  have vals: "map (\<lambda>idx. sims ! idx) ?top = py_take top_k (rev (sort sims))"
  proof -
    have "map (\<lambda>idx. sims ! idx) ?top
            = py_take top_k (rev (map (\<lambda>idx. sims ! idx) (np_argsort s sims)))"
      by (simp add: top_indices_def py_take_def take_map rev_map)
    then show ?thesis
      by (simp only: argsort_values [OF assms(4)])
  qed
  have "map score (semantic_search s query top_k)
          = map (\<lambda>idx. sims ! idx) (filter (\<lambda>idx. sims ! idx > 0) ?top)"
    by (simp add: a comp_def)
  also have "\<dots> = filter (\<lambda>x. x > 0) (map (\<lambda>idx. sims ! idx) ?top)"
    by (simp add: filter_map comp_def)
  finally have b: "map score (semantic_search s query top_k)
                     = filter (\<lambda>x. x > 0) (py_take top_k (rev (sort sims)))"
    by (simp add: vals)
  have "sorted_wrt (\<lambda>a b. a \<ge> b) (rev (sort sims))"
    by (simp add: sorted_wrt_rev)
  then have c: "sorted_wrt (\<lambda>a b. a \<ge> b) (map score (semantic_search s query top_k))"
    unfolding b by (intro sorted_wrt_filter sorted_wrt_py_take)
  have d: "distinct ?top"
    using assms(4) by (rule distinct_top_indices [where argsort = "np_argsort s"])
  have e: "set ?top \<subseteq> {0..<length sims}"
    using assms(4) by (rule set_top_indices [where argsort = "np_argsort s"])
  have f: "\<forall>i \<in> set ?top. \<forall>j < length sims. j \<notin> set ?top \<longrightarrow> sims ! j \<le> sims ! i"
    using top_indices_dominate [where argsort = "np_argsort s", OF assms(4)] by blast
  from a b c d e vals f show ?thesis by blast
qed

lemmas tie_simps = tie_search_def new_code_search_def element_text_def has_docstring_def
  docstring_text_def parse_env_def semantic_search_def top_indices_def insertion_argsort_def
  py_take_def extract_matched_terms_def extract_keywords_def lower_def lower_char_def
  is_word_char_def stop_words_def claimed_top_indices_def sort_desc_def Let_def

text \<open>
  C3 as stated fails: of two elements with the same similarity, \<open>top_k = 1\<close> returns the
  second of the index when the argsort leaves equal values in index order, as an insertion
  sort does; the rule that the first-indexed element wins gives the first.
\<close>

theorem semantic_search_tie_last_index:
  "map codebase (index tie_search) = [''core'', ''dspy'']
   \<and> vectorizer tie_search = Some (\<lambda>query. Some [0.5, 0.5])
   \<and> np_argsort tie_search = insertion_argsort
   \<and> is_argsort_of [0.5, 0.5] (insertion_argsort [0.5, 0.5])
   \<and> map (codebase \<circ> element) (semantic_search tie_search ''parse_env'' 1) = [''dspy'']
   \<and> top_indices insertion_argsort [0.5, 0.5] 1 = [1]
   \<and> claimed_top_indices [0.5, 0.5] 1 = [0]"
proof -
  have "is_argsort_of [0.5, 0.5] (insertion_argsort [0.5, 0.5])"
    by (rule insertion_argsort_is_argsort)
  moreover have "map codebase (index tie_search) = [''core'', ''dspy'']
      \<and> vectorizer tie_search = Some (\<lambda>query. Some [0.5, 0.5])
      \<and> np_argsort tie_search = insertion_argsort"
    by (simp add: tie_search_def new_code_search_def parse_env_def)
  moreover have "map (codebase \<circ> element) (semantic_search tie_search ''parse_env'' 1)
                   = [''dspy'']"
    by (simp add: tie_simps upt_conv_Cons)
  moreover have "top_indices insertion_argsort [0.5, 0.5] 1 = [1]
      \<and> claimed_top_indices [0.5, 0.5] 1 = [0]"
    by (simp add: top_indices_def insertion_argsort_def claimed_top_indices_def sort_desc_def
          py_take_def upt_conv_Cons)
  ultimately show ?thesis
    by blast
qed

theorem semantic_search_top_k_witness:
  "use_tfidf tie_search
   \<and> is_argsort_of [0.5, 0.5] (np_argsort tie_search [0.5, 0.5])
   \<and> length (element_texts tie_search) = length (index tie_search)
   \<and> map score (semantic_search tie_search ''parse_env'' 1) = [0.5]
   \<and> length (semantic_search tie_search ''parse_env'' 1) = 1"
proof -
  have h1: "use_tfidf tie_search"
    by (simp add: tie_search_def new_code_search_def)
  have h2: "vectorizer tie_search = Some (\<lambda>query. Some [0.5, 0.5])"
    by (simp add: tie_search_def new_code_search_def)
  have h3: "(\<lambda>query :: string. Some [0.5, 0.5 :: real]) ''parse_env'' = Some [0.5, 0.5]"
    by simp
  have h4: "is_argsort_of [0.5, 0.5] (np_argsort tie_search [0.5, 0.5])"
    by (simp add: tie_search_def new_code_search_def insertion_argsort_is_argsort)
  have h5: "length [0.5, 0.5 :: real] = length (index tie_search)"
    by (simp add: tie_search_def new_code_search_def)
  have h6: "length (element_texts tie_search) = length (index tie_search)"
    by (simp add: tie_search_def new_code_search_def)
  have top: "filter (\<lambda>x. x > 0) (py_take 1 (rev (sort [0.5, 0.5 :: real]))) = [0.5]"
    by (simp add: py_take_def)
  from semantic_search_top_k [OF h1 h2 h3 h4 h5 h6, where top_k = 1]
  have "map score (semantic_search tie_search ''parse_env'' 1)
          = filter (\<lambda>x. x > 0) (py_take 1 (rev (sort [0.5, 0.5 :: real])))"
    by blast
  then have sc: "map score (semantic_search tie_search ''parse_env'' 1) = [0.5]"
    by (simp only: top)
  then have "length (map score (semantic_search tie_search ''parse_env'' 1)) = 1"
    by simp
  then have len: "length (semantic_search tie_search ''parse_env'' 1) = 1"
    by simp
  show ?thesis
    by (intro conjI) (rule h1 h4 h6 sc len)+
qed

text \<open>
  C9 as stated fails: keyword search gives every result the whole keyword list of the
  query, also a keyword that occurs in no field of the element, and a keyword the query
  repeats is listed twice.
\<close>

theorem keyword_search_unmatched_term:
  "map (\<lambda>r. (name (element r), matched_terms r))
       (keyword_search lexical_search ''parse configuration'' 5)
     = [(''parse_config'', [''parse'', ''configuration'']),
        (''parse_args'', [''parse'', ''configuration'']),
        (''parse_env'', [''parse'', ''configuration''])]
   \<and> \<not> str_in ''configuration'' (lower (name parse_args))
   \<and> \<not> has_docstring parse_args
   \<and> \<not> str_in ''configuration'' (lower (signature parse_args))
   \<and> \<not> str_in ''configuration'' (lower (code parse_args))
   \<and> map matched_terms (keyword_search lexical_search ''parse parse'' 1)
       = [[''parse'', ''parse'']]"
  by (simp add: eval_simps)

lemma keyword_search_terms:
  assumes "r \<in> set (keyword_search s query top_k)"
  shows "set (matched_terms r) \<subseteq> set (extract_keywords query)"
proof (cases "extract_keywords query = []")
  case True
  with assms show ?thesis by (simp add: keyword_search_def)
next
  case False
  with assms show ?thesis by (auto simp: keyword_search_eq)
qed

text \<open>
  C9 (as amended). The matched terms of a keyword search result are keywords of the query,
  whatever the search object. On the vector path of semantic search the matched terms of
  a result are exactly the keywords of the query that occur in the lowercased text built
  for the element, in the order and number the query has them.
\<close>

theorem semantic_search_matched_terms:
  "(\<forall>r \<in> set (keyword_search s query top_k).
      set (matched_terms r) \<subseteq> set (extract_keywords query))
   \<and> (use_tfidf s \<and> vectorizer s = Some v \<and> v query = Some sims
        \<and> is_argsort_of sims (np_argsort s sims)
        \<and> length sims = length (index s)
        \<and> element_texts s = map element_text (index s)
      \<longrightarrow> (\<forall>r \<in> set (semantic_search s query top_k).
             matched_terms r
               = filter (\<lambda>kw. str_in kw (lower (element_text (element r))))
                   (extract_keywords query)))"
proof -
  have sem: "matched_terms r
               = filter (\<lambda>kw. str_in kw (lower (element_text (element r))))
                   (extract_keywords query)"
    if h: "use_tfidf s" "vectorizer s = Some v" "v query = Some sims"
      "is_argsort_of sims (np_argsort s sims)" "length sims = length (index s)"
      "element_texts s = map element_text (index s)"
      and r: "r \<in> set (semantic_search s query top_k)" for r
  proof -
    have len: "length (element_texts s) = length (index s)"
      using h(6) by simp
    have eq: "semantic_search s query top_k =
       map (\<lambda>idx. \<lparr>element = index s ! idx, score = sims ! idx, match_type = ''semantic'',
                     matched_terms = extract_matched_terms query (element_texts s ! idx)\<rparr>)
         (filter (\<lambda>idx. sims ! idx > 0) (top_indices (np_argsort s) sims top_k))"
      using h(1-5) len by (rule semantic_search_available)
    from r obtain idx where idx: "idx \<in> set (top_indices (np_argsort s) sims top_k)"
      and rdef: "r = \<lparr>element = index s ! idx, score = sims ! idx, match_type = ''semantic'',
                      matched_terms = extract_matched_terms query (element_texts s ! idx)\<rparr>"
      unfolding eq by auto
    from idx have "idx < length (index s)"
      using set_top_indices [where argsort = "np_argsort s", OF h(4), of top_k] h(5) by auto
    then have "element_texts s ! idx = element_text (index s ! idx)"
      by (simp add: h(6))
    then show ?thesis
      by (simp add: rdef extract_matched_terms_def Let_def)
  qed
  show ?thesis
    using sem keyword_search_terms by blast
qed

theorem semantic_search_matched_terms_witness:
  "map matched_terms (keyword_search lexical_search ''parse configuration'' 1)
     = [[''parse'', ''configuration'']]
   \<and> extract_keywords ''parse configuration'' = [''parse'', ''configuration'']
   \<and> element_texts tie_search = map element_text (index tie_search)
   \<and> extract_keywords ''parse_env and config'' = [''parse_env'', ''config'']
   \<and> map matched_terms (semantic_search tie_search ''parse_env and config'' 1)
       = [[''parse_env'']]
   \<and> \<not> str_in ''config'' (lower (element_text parse_env))"
proof -
  have h1: "use_tfidf tie_search"
    by (simp add: tie_search_def new_code_search_def)
  have h2: "vectorizer tie_search = Some (\<lambda>query. Some [0.5, 0.5])"
    by (simp add: tie_search_def new_code_search_def)
  have h3: "(\<lambda>query :: string. Some [0.5, 0.5 :: real]) ''parse_env and config''
              = Some [0.5, 0.5]"
    by simp
  have h4: "is_argsort_of [0.5, 0.5] (np_argsort tie_search [0.5, 0.5])"
    by (simp add: tie_search_def new_code_search_def insertion_argsort_is_argsort)
  have h5: "length [0.5, 0.5 :: real] = length (index tie_search)"
    by (simp add: tie_search_def new_code_search_def)
  have h6: "element_texts tie_search = map element_text (index tie_search)"
    by (simp add: tie_search_def new_code_search_def)
  have k1: "map matched_terms (keyword_search lexical_search ''parse configuration'' 1)
     = [[''parse'', ''configuration'']]"
    by (simp add: eval_simps)
  have k2: "extract_keywords ''parse configuration'' = [''parse'', ''configuration'']"
    by (simp add: eval_simps)
  have k3: "extract_keywords ''parse_env and config'' = [''parse_env'', ''config'']"
    by (simp add: eval_simps)
  have ev: "map matched_terms (semantic_search tie_search ''parse_env and config'' 1)
       = [[''parse_env'']]"
    by (simp add: tie_simps upt_conv_Cons)
  have no: "\<not> str_in ''config'' (lower (element_text parse_env))"
    by (simp add: tie_simps)
  note thm_lex = semantic_search_matched_terms
    [where s = lexical_search and query = "''parse configuration''" and top_k = 1]
  note thm_sem = semantic_search_matched_terms
    [where s = tie_search and query = "''parse_env and config''" and top_k = 1
       and v = "\<lambda>query. Some [0.5, 0.5]" and sims = "[0.5, 0.5]"]
  from thm_lex have "\<forall>r \<in> set (keyword_search lexical_search ''parse configuration'' 1).
      set (matched_terms r) \<subseteq> set (extract_keywords ''parse configuration'')"
    by blast
  moreover from thm_sem h1 h2 h3 h4 h5 h6
  have "\<forall>r \<in> set (semantic_search tie_search ''parse_env and config'' 1).
          matched_terms r
            = filter (\<lambda>kw. str_in kw (lower (element_text (element r))))
                (extract_keywords ''parse_env and config'')"
    by blast
  ultimately show ?thesis
    using k1 k2 h6 k3 ev no by blast
qed

lemma search_by_name_loop_exact:
  "search_by_name_loop nm True elems acc =
     Inr (acc @ map (\<lambda>elem. \<lparr>element = elem, score = 1, match_type = ''exact'',
                               matched_terms = [nm]\<rparr>)
                  (filter (\<lambda>elem. lower (name elem) = lower nm) elems))"
  by (induction elems arbitrary: acc) (simp_all add: Let_def)

lemma search_by_name_loop_substring:
  assumes "\<forall>elem \<in> set elems. name elem \<noteq> []"
  shows "search_by_name_loop nm False elems acc =
     Inr (acc @ map (\<lambda>elem. \<lparr>element = elem,
                               score = real (length nm) / real (length (name elem)),
                               match_type = ''name'', matched_terms = [nm]\<rparr>)
                  (filter (\<lambda>elem. str_in (lower nm) (lower (name elem))) elems))"
  using assms by (induction elems arbitrary: acc) (simp_all add: Let_def)

text \<open>
  C8. When no indexed element has an empty name, search by name compares lowercased
  names. In exact mode it returns, in index order, one result with score 1 and match type
  \<open>exact\<close> for each element whose lowercased name equals the lowercased query; in
  substring mode it returns, for each element whose lowercased name contains the
  lowercased query, a result with score \<open>len(query) / len(name)\<close> and match type
  \<open>name\<close>, sorted by descending score with ties in index order. In both modes the
  returned list is in descending order of score.
\<close>

theorem search_by_name_results:
  assumes "\<forall>elem \<in> set (index s). name elem \<noteq> []"
  shows "search_by_name s nm True =
           Inr (map (\<lambda>elem. \<lparr>element = elem, score = 1, match_type = ''exact'',
                              matched_terms = [nm]\<rparr>)
                  (filter (\<lambda>elem. lower (name elem) = lower nm) (index s)))
       \<and> search_by_name s nm False =
           Inr (sort_desc score
                  (map (\<lambda>elem. \<lparr>element = elem,
                                  score = real (length nm) / real (length (name elem)),
                                  match_type = ''name'', matched_terms = [nm]\<rparr>)
                     (filter (\<lambda>elem. str_in (lower nm) (lower (name elem))) (index s))))
       \<and> (\<forall>exact rs. search_by_name s nm exact = Inr rs
             \<longrightarrow> sorted_wrt (\<lambda>a b. score a \<ge> score b) rs)"
proof -
  let ?mkE = "\<lambda>elem. \<lparr>element = elem, score = 1, match_type = ''exact'', matched_terms = [nm]\<rparr>"
  let ?mkN = "\<lambda>elem. \<lparr>element = elem, score = real (length nm) / real (length (name elem)),
                       match_type = ''name'', matched_terms = [nm]\<rparr>"
  let ?exacts = "map ?mkE (filter (\<lambda>elem. lower (name elem) = lower nm) (index s))"
  let ?subs = "map ?mkN (filter (\<lambda>elem. str_in (lower nm) (lower (name elem))) (index s))"
  have "sorted_wrt (\<lambda>a b. score a \<ge> score b) ?exacts"
    by (simp add: sorted_wrt_map)
  then have "sort_desc score ?exacts = ?exacts"
    by (rule sort_desc_id)
  then have e: "search_by_name s nm True = Inr ?exacts"
    by (simp add: search_by_name_def search_by_name_loop_exact)
  have n: "search_by_name s nm False = Inr (sort_desc score ?subs)"
    using assms by (simp add: search_by_name_def search_by_name_loop_substring)
  have srt: "sorted_wrt (\<lambda>a b. score a \<ge> score b) rs"
    if "search_by_name s nm exact = Inr rs" for exact rs
  proof (cases exact)
    case True
    with that e have "rs = sort_desc score ?exacts"
      using \<open>sort_desc score ?exacts = ?exacts\<close> by simp
    then show ?thesis
      by (simp only: sort_desc_sorted)
  next
    case False
    with that n have "rs = sort_desc score ?subs"
      by simp
    then show ?thesis
      by (simp only: sort_desc_sorted)
  qed
  from e n srt show ?thesis by blast
qed

text \<open>The division is by the length of the element's name: an empty name raises.\<close>

lemma search_by_name_empty_name_raises:
  "search_by_name \<lparr>index = [parse_env\<lparr>name := []\<rparr>], use_tfidf = False, vectorizer = None,
                    element_texts = [], query_cache = Map.empty,
                    np_argsort = insertion_argsort\<rparr> [] False
     = Inl ZeroDivisionError"
  by (simp add: search_by_name_def Let_def lower_def)

theorem search_by_name_results_witness:
  "map (\<lambda>r. (name (element r), score r, match_type r))
       (projr (search_by_name lexical_search ''PARSE'' False))
     = [(''parse_env'', 5 / 9, ''name''), (''parse_args'', 1 / 2, ''name''),
        (''parse_config'', 5 / 12, ''name'')]
   \<and> map (\<lambda>r. (name (element r), score r, match_type r))
       (projr (search_by_name lexical_search ''configerror'' True))
     = [(''ConfigError'', 1, ''exact'')]"
proof -
  have h: "\<forall>elem \<in> set (index lexical_search). name elem \<noteq> []"
    by (simp add: eval_simps)
  have f1: "filter (\<lambda>elem. str_in (lower ''PARSE'') (lower (name elem))) (index lexical_search)
              = [parse_config, parse_args, parse_env]"
    by (simp add: eval_simps)
  have f2: "filter (\<lambda>elem. lower (name elem) = lower ''configerror'') (index lexical_search)
              = [config_error]"
    by (simp add: eval_simps)
  show ?thesis
    using search_by_name_results [OF h, of "''PARSE''"]
      search_by_name_results [OF h, of "''configerror''"]
    by (simp add: f1 f2) (simp add: eval_simps)
qed

lemmas rank_simps = rank_input_def rank_input_aligned_def rank_results_def boost_pass_def boost_of_def sort_desc_def
  has_docstring_def docstring_text_def parse_env_def parse_args_def lower_def lower_char_def
  Let_def


text \<open>
  C2 as stated fails: a result with the lower score and the higher boost stays below
  after one pass and moves above after the second.
\<close>

theorem rank_results_twice_reorders:
  "map (\<lambda>r. (name (element r), score r)) (rank_results rank_input ''zzz'')
     = [(''parse_env'', 1), (''parse_args'', 0.924)]
   \<and> map (\<lambda>r. (name (element r), score r))
        (rank_results (rank_results rank_input ''zzz'') ''zzz'')
     = [(''parse_args'', 1.21968), (''parse_env'', 1)]"
  by (simp add: rank_simps)


lemma boost_of_ge_1: "boost_of q elem \<ge> 1"
  by (simp add: boost_of_def Let_def)

lemma sorted_wrt_conj:
  "sorted_wrt P xs \<Longrightarrow> sorted_wrt Q xs \<Longrightarrow> sorted_wrt (\<lambda>a b. P a b \<and> Q a b) xs"
  by (induction xs) auto

lemma element_boost_pass: "map element (boost_pass results query) = map element results"
  by (simp add: boost_pass_def Let_def comp_def)

lemma boost_pass_nonneg:
  assumes "\<forall>r \<in> set results. 0 \<le> score r"
  shows "\<forall>r \<in> set (boost_pass results query). 0 \<le> score r"
proof -
  have "0 \<le> score r * boost_of (lower query) (element r)" if "r \<in> set results" for r
    using that assms boost_of_ge_1 [of "lower query" "element r"] by simp
  then show ?thesis
    by (auto simp: boost_pass_def Let_def)
qed

text \<open>
  C2 (as amended). When no score is negative and the boost factors do not increase down
  the list that one pass returns (in particular when all results have the same boost),
  the sort of a second pass moves nothing: the second pass returns the results of the
  first in the same order, each score multiplied by its boost once more.
\<close>

theorem rank_results_order_kept:
  assumes nonneg: "\<forall>r \<in> set results. 0 \<le> score r"
    and boosts: "sorted_wrt (\<lambda>a b. boost_of (lower query) (element a)
                                     \<ge> boost_of (lower query) (element b))
                   (rank_results results query)"
  shows "rank_results (rank_results results query) query
           = boost_pass (rank_results results query) query
       \<and> map element (rank_results (rank_results results query) query)
           = map element (rank_results results query)"
proof -
  let ?r1 = "rank_results results query"
  let ?b = "\<lambda>r. boost_of (lower query) (element r)"
  have scores: "sorted_wrt (\<lambda>a b. score a \<ge> score b) ?r1"
    unfolding rank_results_def by (rule sort_desc_sorted)
  have pos: "\<forall>r \<in> set ?r1. 0 \<le> score r"
    using boost_pass_nonneg [OF nonneg, of query]
    by (simp add: rank_results_def set_sort_desc)
  have both: "sorted_wrt (\<lambda>a b. score a \<ge> score b \<and> ?b a \<ge> ?b b) ?r1"
    using scores boosts by (rule sorted_wrt_conj)
  have "sorted_wrt (\<lambda>a b. score a * ?b a \<ge> score b * ?b b) ?r1"
  proof (rule sorted_wrt_mono_rel [OF _ both])
    fix a b
    assume a: "a \<in> set ?r1" and b: "b \<in> set ?r1"
      and ab: "score b \<le> score a \<and> ?b b \<le> ?b a"
    have "0 \<le> score a"
      using pos a by blast
    moreover have "0 \<le> ?b b"
      using boost_of_ge_1 [of "lower query" "element b"] by simp
    ultimately show "score b * ?b b \<le> score a * ?b a"
      using ab by (intro mult_mono) simp_all
  qed
  then have "sorted_wrt (\<lambda>a b. score a \<ge> score b) (boost_pass ?r1 query)"
    by (simp add: boost_pass_def Let_def sorted_wrt_map)
  then have kept: "rank_results ?r1 query = boost_pass ?r1 query"
    unfolding rank_results_def [of ?r1] by (rule sort_desc_id)
  then show ?thesis
    by (simp add: element_boost_pass)
qed

theorem rank_results_order_kept_witness:
  "map (\<lambda>r. (name (element r), score r)) (rank_results rank_input_aligned ''zzz'')
     = [(''parse_args'', 1.32), (''parse_env'', 0.7)]
   \<and> map element (rank_results (rank_results rank_input_aligned ''zzz'') ''zzz'')
     = [parse_args, parse_env]"
proof -
  have h1: "\<forall>r \<in> set rank_input_aligned. 0 \<le> score r"
    by (simp add: rank_input_aligned_def)
  have r1: "rank_results rank_input_aligned ''zzz''
     = [\<lparr>element = parse_args, score = 1.32, match_type = ''keyword'', matched_terms = []\<rparr>,
        \<lparr>element = parse_env, score = 0.7, match_type = ''keyword'', matched_terms = []\<rparr>]"
    by (simp add: rank_simps)
  have h2: "sorted_wrt (\<lambda>a b. boost_of (lower ''zzz'') (element a)
                                 \<ge> boost_of (lower ''zzz'') (element b))
              (rank_results rank_input_aligned ''zzz'')"
    unfolding r1 by (simp add: rank_simps)
  have "map (\<lambda>r. (name (element r), score r)) (rank_results rank_input_aligned ''zzz'')
          = [(''parse_args'', 1.32), (''parse_env'', 0.7)]"
    unfolding r1 by (simp add: parse_args_def parse_env_def)
  moreover have "map element (rank_results rank_input_aligned ''zzz'') = [parse_args, parse_env]"
    unfolding r1 by simp
  ultimately show ?thesis
    using rank_results_order_kept [OF h1 h2] by (simp add: element_boost_pass)
qed

end
